theory Spec2Isabelle
  imports Complex_Main "HOL-Library.Sublist"
begin

section \<open>C strings and the string functions of \<^verbatim>\<open>platform.c\<close> and libc\<close>

text \<open>
  A C string is modelled by the list of the characters before its terminating NUL.
  A pointer into a string is an offset \<open>i\<close>; the string it points at is \<open>drop i s\<close>.
  A pointer that may be \<^verbatim>\<open>NULL\<close> is an \<open>option\<close>. Allocation failure ends the process
  (\<^verbatim>\<open>safe_malloc\<close> calls \<^verbatim>\<open>exit\<close>) and is not modelled; logging writes to \<^verbatim>\<open>stderr\<close> and
  to the log file only and is left out. The build modelled is \<^verbatim>\<open>PLATFORM_POSIX\<close>.
\<close>

text \<open>\<^verbatim>\<open>isspace\<close> of \<^verbatim>\<open>ctype.h\<close> in the C locale: space, \<^verbatim>\<open>\t \n \v \f \r\<close>.\<close>

definition isspace :: "char \<Rightarrow> bool" where
  "isspace c \<longleftrightarrow>
     c = CHR '' '' \<or> c = CHR 0x09 \<or> c = CHR ''\<newline>'' \<or> c = CHR 0x0B \<or> c = CHR 0x0C \<or> c = CHR 0x0D"

text \<open>
  \<^verbatim>\<open>strstr(haystack, needle)\<close>: the offset of the first occurrence of \<open>needle\<close>, or
  \<^verbatim>\<open>NULL\<close>. The empty needle is found at offset 0.
\<close>

fun strstr :: "string \<Rightarrow> string \<Rightarrow> nat option" where
  "strstr [] needle = (if needle = [] then Some 0 else None)"
| "strstr (c # cs) needle =
     (if prefix needle (c # cs) then Some 0 else map_option Suc (strstr cs needle))"

text \<open>
  \<^verbatim>\<open>string_trim\<close> (platform.c): skips leading whitespace, then moves \<^verbatim>\<open>end\<close> back from the
  last character while \<^verbatim>\<open>end > str\<close> and \<^verbatim>\<open>*end\<close> is whitespace, and cuts after \<^verbatim>\<open>end\<close>.
\<close>

definition string_trim :: "string \<Rightarrow> string" where
  "string_trim str =
     (case dropWhile isspace str of
        [] \<Rightarrow> []
      | c # cs \<Rightarrow> c # rev (dropWhile isspace (rev cs)))"

text \<open>\<^verbatim>\<open>string_starts_with\<close> and \<^verbatim>\<open>string_ends_with\<close> (platform.c), on non-null arguments.\<close>

definition string_starts_with :: "string \<Rightarrow> string \<Rightarrow> bool" where
  "string_starts_with str pre \<longleftrightarrow> take (length pre) str = pre"

definition string_ends_with :: "string \<Rightarrow> string \<Rightarrow> bool" where
  "string_ends_with str suf \<longleftrightarrow>
     (if length suf > length str then False
      else drop (length str - length suf) str = suf)"

text \<open>
  \<^verbatim>\<open>strtok\<close>: skips the delimiters at the front; if nothing is left there is no token;
  otherwise the token runs up to the next delimiter, which is overwritten by NUL, and the
  scan resumes behind it. The result is the token and the text the next call resumes at.
\<close>

definition strtok :: "string \<Rightarrow> string \<Rightarrow> (string \<times> string) option" where
  "strtok s delim =
     (let s1 = dropWhile (\<lambda>c. c \<in> set delim) s
      in if s1 = [] then None
         else Some (takeWhile (\<lambda>c. c \<notin> set delim) s1,
                    drop 1 (dropWhile (\<lambda>c. c \<notin> set delim) s1)))"

text \<open>
  \<^verbatim>\<open>fgets(line, bufsize, file)\<close> on the unread bytes of a stream: at most \<open>bufsize - 1\<close> bytes,
  stopping behind the first newline; \<^verbatim>\<open>NULL\<close> at end of file. The result is the bytes
  stored and the bytes left unread.
\<close>

definition fgets :: "nat \<Rightarrow> string \<Rightarrow> (string \<times> string) option" where
  "fgets bufsize stream =
     (if stream = [] then None
      else
        (let chunk = take (bufsize - 1) stream;
             line = takeWhile (\<lambda>c. c \<noteq> CHR ''\<newline>'') chunk;
             n = (if length line < length chunk then length line + 1 else length line)
         in Some (take n stream, drop n stream)))"

section \<open>The response parser (\<^verbatim>\<open>agent.c\<close>)\<close>

datatype ResponseType = RESPONSE_ACTION | RESPONSE_FINAL | RESPONSE_UNKNOWN

text \<open>
  \<^verbatim>\<open>ParsedResponse\<close>: the three \<^verbatim>\<open>char*\<close> fields start as \<^verbatim>\<open>NULL\<close> (the struct is
  allocated with \<^verbatim>\<open>calloc\<close>) and stay \<^verbatim>\<open>NULL\<close> unless the parser assigns them.
\<close>

record ParsedResponse =
  type :: ResponseType
  action :: "string option"
  action_input :: "string option"
  final_answer :: "string option"

definition final_answer_marker :: string where
  "final_answer_marker = ''Final Answer:''"

definition action_marker :: string where
  "action_marker = ''Action:''"

definition input_marker :: string where
  "input_marker = ''Action Input:''"

text \<open>
  \<^verbatim>\<open>agent_parse_response\<close>. The loops \<^verbatim>\<open>while (*p && isspace(*p)) p++\<close> are
  \<open>dropWhile isspace\<close>. The end of the argument payload is looked for in the source's
  order: the first \<^verbatim>\<open>"\nThought:"\<close>; if there is none the first \<^verbatim>\<open>"\nAction:"\<close>; then
  \<^verbatim>\<open>"\nObservation:"\<close>; then \<^verbatim>\<open>"\nFinal Answer:"\<close>; then the end of the response.
  When no newline follows the tool name, \<^verbatim>\<open>parsed->action\<close> is left \<^verbatim>\<open>NULL\<close>.
\<close>

definition agent_parse_response :: "string \<Rightarrow> ParsedResponse" where
  "agent_parse_response response =
     (case strstr response final_answer_marker of
        Some final_pos \<Rightarrow>
          \<lparr>type = RESPONSE_FINAL, action = None, action_input = None,
           final_answer =
             Some (dropWhile isspace (drop (final_pos + length final_answer_marker) response))\<rparr>
      | None \<Rightarrow>
          (case (strstr response action_marker, strstr response input_marker) of
             (Some action_pos, Some input_pos) \<Rightarrow>
               if input_pos > action_pos then
                 (let action_str = dropWhile isspace (drop (action_pos + length action_marker) response);
                      input_str = dropWhile isspace (drop (input_pos + length input_marker) response);
                      input_len =
                        (case strstr input_str ''\<newline>Thought:'' of Some e \<Rightarrow> e | None \<Rightarrow>
                         (case strstr input_str ''\<newline>Action:'' of Some e \<Rightarrow> e | None \<Rightarrow>
                         (case strstr input_str ''\<newline>Observation:'' of Some e \<Rightarrow> e | None \<Rightarrow>
                         (case strstr input_str ''\<newline>Final Answer:'' of Some e \<Rightarrow> e | None \<Rightarrow>
                          length input_str))))
                  in \<lparr>type = RESPONSE_ACTION,
                      action =
                        (case strstr action_str ''\<newline>'' of
                           Some action_len \<Rightarrow> Some (string_trim (take action_len action_str))
                         | None \<Rightarrow> None),
                      action_input = Some (string_trim (take input_len input_str)),
                      final_answer = None\<rparr>)
               else \<lparr>type = RESPONSE_UNKNOWN, action = None, action_input = None,
                     final_answer = None\<rparr>
           | _ \<Rightarrow> \<lparr>type = RESPONSE_UNKNOWN, action = None, action_input = None,
                   final_answer = None\<rparr>))"

section \<open>External functions: the JSON library, \<^verbatim>\<open>fnmatch\<close>, the file system\<close>

text \<open>
  A \<^verbatim>\<open>cJSON\<close> tree, by the node types of \<^verbatim>\<open>cJSON.h\<close>. The agent inspects only whether a node
  is a string (\<^verbatim>\<open>cJSON_IsString\<close>) and its \<^verbatim>\<open>valuestring\<close>.
\<close>

datatype cJSON =
    cJSON_False
  | cJSON_True
  | cJSON_NULL
  | cJSON_Number real
  | cJSON_String string
  | cJSON_Array "cJSON list"
  | cJSON_Object "(string \<times> cJSON) list"

text \<open>
  The library functions the tools call belong to third parties (cJSON, libc), not to
  this program; they are parameters.
  \<open>cJSON_Parse\<close> takes the (possibly \<^verbatim>\<open>NULL\<close>) text and yields \<^verbatim>\<open>NULL\<close> when it does not
  parse; \<open>fnmatch pattern string\<close> stands for \<^verbatim>\<open>fnmatch(pattern, string, 0) == 0\<close>.
\<close>

record extern =
  cJSON_Parse :: "string option \<Rightarrow> cJSON option"
  cJSON_GetObjectItem :: "cJSON \<Rightarrow> string \<Rightarrow> cJSON option"
  cJSON_PrintUnformatted :: "cJSON \<Rightarrow> string"
  fnmatch :: "string \<Rightarrow> string \<Rightarrow> bool"

datatype st_mode = S_IFDIR | S_IFREG | S_IFOTHER

text \<open>
  The file system as the calls of \<^verbatim>\<open>tools.c\<close> see it: \<open>fs_stat\<close> is \<^verbatim>\<open>stat\<close> (\<open>None\<close> when
  it fails), \<open>fs_access\<close> is \<^verbatim>\<open>access(path, F_OK) == 0\<close>, \<open>fs_fopen\<close> gives the bytes of a file
  that \<^verbatim>\<open>fopen\<close> opens for reading, \<open>fs_opendir\<close> the names \<^verbatim>\<open>readdir\<close> returns in turn
  (with \<^verbatim>\<open>.\<close> and \<^verbatim>\<open>..\<close>) for a directory that \<^verbatim>\<open>opendir\<close> opens.
\<close>

record filesys =
  fs_stat :: "string \<Rightarrow> st_mode option"
  fs_access :: "string \<Rightarrow> bool"
  fs_fopen :: "string \<Rightarrow> string option"
  fs_opendir :: "string \<Rightarrow> string list option"

text \<open>POSIX: \<^verbatim>\<open>stat\<close> fails with \<^verbatim>\<open>ENOENT\<close> when the path is the empty string.\<close>

definition stat :: "filesys \<Rightarrow> string \<Rightarrow> st_mode option" where
  "stat fs path = (if path = [] then None else fs_stat fs path)"

definition platform_file_exists :: "filesys \<Rightarrow> string \<Rightarrow> bool" where
  "platform_file_exists fs path \<longleftrightarrow> fs_access fs path"

definition platform_is_directory :: "filesys \<Rightarrow> string \<Rightarrow> bool" where
  "platform_is_directory fs path \<longleftrightarrow>
     (case stat fs path of Some m \<Rightarrow> m = S_IFDIR | None \<Rightarrow> False)"

text \<open>
  What stops a call from returning a value: a \<^verbatim>\<open>NULL\<close> pointer handed to \<^verbatim>\<open>strcmp\<close>
  (undefined behaviour, a crash in practice), a variable-length array that overruns the
  stack (a crash as well), and a directory walk that has not ended within the recursion
  depth given as fuel.
\<close>

datatype fault = NullDereference | StackOverflow | OutOfFuel

section \<open>The tools (\<^verbatim>\<open>tools.c\<close>)\<close>

definition match_pattern :: "extern \<Rightarrow> string \<Rightarrow> string \<Rightarrow> bool" where
  "match_pattern X filename pattern \<longleftrightarrow>
     (if pattern = ''*'' \<or> pattern = ''*.*'' then True
      else if string_starts_with pattern ''*.'' then string_ends_with filename (drop 1 pattern)
      else fnmatch X pattern filename)"

text \<open>
  \<^verbatim>\<open>GitIgnore\<close>: the patterns in the order loaded (\<^verbatim>\<open>count\<close> is the length of the list).
\<close>

type_synonym GitIgnore = "string list"

text \<open>
  The \<^verbatim>\<open>fgets\<close> loop of \<^verbatim>\<open>gitignore_load\<close>, with a 256 byte line buffer. The buffer is read
  as a C string, so a line ends at a NUL byte of the file.
\<close>

function gitignore_lines :: "string \<Rightarrow> GitIgnore \<Rightarrow> GitIgnore" where
  "gitignore_lines stream patterns =
     (case fgets 256 stream of
        None \<Rightarrow> patterns
      | Some (line, rest) \<Rightarrow>
          (let trimmed = string_trim (takeWhile (\<lambda>c. c \<noteq> CHR 0x00) line)
           in gitignore_lines rest
                (if length trimmed > 0 \<and> hd trimmed \<noteq> CHR ''#'' then patterns @ [trimmed]
                 else patterns)))"
  by pat_completeness auto
termination
proof (relation "measure (\<lambda>(stream, patterns). length stream)", goal_cases)
  case 1
  show ?case by simp
next
  case (2 stream patterns x2 line rest)
  then have fg: "fgets 256 stream = Some (line, rest)" by simp
  define chunk where "chunk = take 255 stream"
  define ln where "ln = takeWhile (\<lambda>c. c \<noteq> CHR ''\<newline>'') chunk"
  define n where "n = (if length ln < length chunk then length ln + 1 else length ln)"
  from fg have ne: "stream \<noteq> []" and rest: "rest = drop n stream"
    by (auto simp: fgets_def Let_def chunk_def ln_def n_def split: if_splits)
  from ne have "length chunk > 0" by (simp add: chunk_def)
  then have "n > 0" by (auto simp: n_def)
  with ne rest have "length rest < length stream" by simp
  then show ?case by simp
qed

definition gitignore_load :: "filesys \<Rightarrow> string \<Rightarrow> GitIgnore option" where
  "gitignore_load fs directory =
     (let gitignore_path = take 1023 (directory @ ''/.gitignore'')
      in if \<not> platform_file_exists fs gitignore_path then None
         else (case fs_fopen fs gitignore_path of
                 None \<Rightarrow> None
               | Some stream \<Rightarrow> Some (gitignore_lines stream [])))"

definition path_delims :: string where
  "path_delims = [CHR ''/'', CHR 0x5C]"

text \<open>The \<^verbatim>\<open>while (token)\<close> loop of \<^verbatim>\<open>gitignore_should_ignore\<close> over the \<^verbatim>\<open>strtok\<close> tokens.\<close>

function token_loop :: "string \<Rightarrow> (string \<times> string) option \<Rightarrow> bool" where
  "token_loop pattern None = False"
| "token_loop pattern (Some (token, rest)) =
     (if token = pattern then True else token_loop pattern (strtok rest path_delims))"
  by pat_completeness auto
termination
proof (relation "measure (\<lambda>(pattern, t). case t of None \<Rightarrow> 0 | Some (token, rest) \<Rightarrow> Suc (length rest))",
    goal_cases)
  case 1
  show ?case by simp
next
  case (2 pattern token rest)
  have "length r < length rest" if "strtok rest path_delims = Some (t, r)" for t r
  proof -
    let ?s1 = "dropWhile (\<lambda>c. c \<in> set path_delims) rest"
    from that have ne: "?s1 \<noteq> []"
      and r: "r = drop 1 (dropWhile (\<lambda>c. c \<notin> set path_delims) ?s1)"
      by (auto simp: strtok_def Let_def split: if_splits)
    from ne have "hd ?s1 \<notin> set path_delims" using hd_dropWhile by metis
    with ne have "length (dropWhile (\<lambda>c. c \<notin> set path_delims) ?s1) < length ?s1"
      by (cases ?s1) (auto simp: le_imp_less_Suc length_dropWhile_le)
    moreover have "length ?s1 \<le> length rest" by (rule length_dropWhile_le)
    ultimately show ?thesis using r by simp
  qed
  then show ?case by (cases "strtok rest path_delims") auto
qed

text \<open>
  \<^verbatim>\<open>gitignore_should_ignore\<close>: \<open>patterns_loop\<close> is its \<^verbatim>\<open>for\<close> loop over the patterns, with
  the three tests in the source's order.
\<close>

fun patterns_loop :: "GitIgnore \<Rightarrow> string \<Rightarrow> bool" where
  "patterns_loop [] path = False"
| "patterns_loop (pattern # patterns) path =
     (if strstr path pattern \<noteq> None then True
      else if string_ends_with path pattern then True
      else if token_loop pattern (strtok path path_delims) then True
      else patterns_loop patterns path)"

definition gitignore_should_ignore :: "GitIgnore option \<Rightarrow> string \<Rightarrow> bool" where
  "gitignore_should_ignore ignore path \<longleftrightarrow>
     (case ignore of None \<Rightarrow> False | Some patterns \<Rightarrow> patterns_loop patterns path)"

text \<open>
  A loop over a list that threads a state and stops at the first fault.
\<close>

primrec for_each :: "'a list \<Rightarrow> ('a \<Rightarrow> 's \<Rightarrow> fault + 's) \<Rightarrow> 's \<Rightarrow> fault + 's" where
  "for_each [] body s = Inr s"
| "for_each (x # xs) body s =
     (case body x s of Inl e \<Rightarrow> Inl e | Inr s' \<Rightarrow> for_each xs body s')"

text \<open>
  \<^verbatim>\<open>traverse_directory\<close> (POSIX branch); the body of its \<^verbatim>\<open>readdir\<close> loop is the function
  given to \<open>for_each\<close>, and \<open>Inr results\<close> there is \<^verbatim>\<open>continue\<close>. The recursion follows
  whatever \<^verbatim>\<open>stat\<close> reports as a directory and need not end, so it is bounded by a
  recursion depth (fuel). \<^verbatim>\<open>full_path\<close> is a 1024 byte buffer written by \<^verbatim>\<open>snprintf\<close>,
  which keeps the first 1023 characters. \<open>results\<close> is the \<^verbatim>\<open>FileList\<close>.
\<close>

primrec traverse_directory ::
    "extern \<Rightarrow> filesys \<Rightarrow> nat \<Rightarrow> string \<Rightarrow> string \<Rightarrow> string list \<Rightarrow> GitIgnore option \<Rightarrow>
     string option \<Rightarrow> fault + string list" where
  "traverse_directory X fs 0 directory pattern results gitignore base_dir = Inl OutOfFuel"
| "traverse_directory X fs (Suc n) directory pattern results gitignore base_dir =
     (case fs_opendir fs directory of
        None \<Rightarrow> Inr results
      | Some entries \<Rightarrow>
          for_each entries
            (\<lambda>d_name results.
               if d_name = ''.'' \<or> d_name = ''..'' then Inr results
               else
                 (let full_path = take 1023 (directory @ ''/'' @ d_name);
                      rel_path =
                        (case base_dir of
                           Some b \<Rightarrow>
                             if string_starts_with full_path b then
                               dropWhile (\<lambda>c. c = CHR ''/'' \<or> c = CHR 0x5C)
                                 (drop (length b) full_path)
                             else full_path
                         | None \<Rightarrow> full_path)
                  in if gitignore \<noteq> None \<and> gitignore_should_ignore gitignore rel_path then
                       Inr results
                     else
                       (case stat fs full_path of
                          Some S_IFDIR \<Rightarrow>
                            traverse_directory X fs n full_path pattern results gitignore base_dir
                        | Some S_IFREG \<Rightarrow>
                            Inr (if match_pattern X d_name pattern then results @ [full_path]
                                 else results)
                        | _ \<Rightarrow> Inr results)))
            results)"


definition find_all_matching_files ::
    "extern \<Rightarrow> filesys \<Rightarrow> nat \<Rightarrow> string \<Rightarrow> string \<Rightarrow> fault + string" where
  "find_all_matching_files X fs fuel directory pattern =
     (if \<not> platform_is_directory fs directory then Inr ''[]''
      else
        (let gitignore = gitignore_load fs directory
         in case traverse_directory X fs fuel directory pattern [] gitignore (Some directory) of
              Inl e \<Rightarrow> Inl e
            | Inr results \<Rightarrow>
                Inr (cJSON_PrintUnformatted X (cJSON_Array (map cJSON_String results)))))"

text \<open>
  \<^verbatim>\<open>read_file\<close>: \<^verbatim>\<open>file_size\<close> is what \<^verbatim>\<open>ftell\<close> reports at the end of the file, the number of
  its bytes; \<^verbatim>\<open>fread\<close> then reads them all, and the loop over them looks for a NUL byte.
\<close>

definition read_file :: "extern \<Rightarrow> filesys \<Rightarrow> string \<Rightarrow> string" where
  "read_file X fs file_path =
     (case fs_fopen fs file_path of
        None \<Rightarrow>
          cJSON_PrintUnformatted X (cJSON_Object [(''error'', cJSON_String ''File not found'')])
      | Some content \<Rightarrow>
          (let file_size = int (length content)
           in if file_size > 10 * 1024 * 1024 then
                cJSON_PrintUnformatted X (cJSON_Object [(''error'', cJSON_String ''File too large'')])
              else if CHR 0x00 \<in> set content then
                cJSON_PrintUnformatted X
                  (cJSON_Object [(''error'', cJSON_String ''Cannot read binary file'')])
              else
                cJSON_PrintUnformatted X
                  (cJSON_Object [(''file'', cJSON_String file_path),
                                 (''content'', cJSON_String content)])))"

text \<open>
  Modelled from the spec: \<^verbatim>\<open>read_file_content\<close>, which the dispatcher calls for the tool
  \<^verbatim>\<open>read_file\<close> and which the sources at hand declare and define nowhere. The spec gives
  the dispatcher's \<^verbatim>\<open>read_file\<close> tool the contract of the file reader of \<^verbatim>\<open>tools.c\<close>.
\<close>

definition read_file_content :: "extern \<Rightarrow> filesys \<Rightarrow> string \<Rightarrow> string" where
  "read_file_content X fs file_path = read_file X fs file_path"

section \<open>The agent (\<^verbatim>\<open>agent.c\<close>)\<close>

definition MAX_STEPS :: nat where
  "MAX_STEPS = 50"

definition REACT_SYSTEM_PROMPT :: string where
  \<open>REACT_SYSTEM_PROMPT =
     ''You are a technical documentation assistant that analyses codebases and generates comprehensive documentation.\<newline>'' @
     ''\<newline>'' @
     ''When given a directory path and a specific analysis request, you will:\<newline>'' @
     ''1. Explore the codebase structure to understand its organization\<newline>'' @
     ''2. Read relevant files to comprehend the implementation details\<newline>'' @
     ''3. Generate detailed technical documentation based on your analysis\<newline>'' @
     ''\<newline>'' @
     ''You have access to tools that help you explore and understand codebases:\<newline>'' @
     ''- find_all_matching_files: Find files matching patterns in directories\<newline>'' @
     ''- read_file: Read the contents of specific files\<newline>'' @
     ''\<newline>'' @
     ''Important guidelines:\<newline>'' @
     ''- Always start by exploring the directory structure to understand the codebase layout\<newline>'' @
     ''- Read files strategically based on the documentation needs\<newline>'' @
     ''- Pay attention to configuration files, main entry points, and key modules\<newline>'' @
     ''- Generate clear, well-structured documentation that would help developers understand the codebase\<newline>'' @
     ''\<newline>'' @
     ''Use the following format:\<newline>'' @
     ''\<newline>'' @
     ''Thought: I need to [describe what you need to do next]\<newline>'' @
     ''Action: [tool_name]\<newline>'' @
     ''Action Input: {"param1": "value1", "param2": "value2"}\<newline>'' @
     ''Observation: [tool output will be provided here]\<newline>'' @
     ''... (repeat Thought/Action/Action Input/Observation as needed)\<newline>'' @
     ''Thought: I now have enough information to generate the documentation\<newline>'' @
     ''Final Answer: [Your complete technical documentation]\<newline>'' @
     ''\<newline>'' @
     ''Begin your analysis now.''\<close>

record Message =
  role :: string
  content :: string

text \<open>
  \<^verbatim>\<open>TechWriterAgent\<close>: \<open>memory\<close> is the array of the first \<^verbatim>\<open>memory_count\<close> messages (its
  capacity doubles when full, which changes no content). \<open>client\<close> stands for the HTTP
  client: the state of the model collaborator behind it.
\<close>

record 'l TechWriterAgent =
  client :: 'l
  memory :: "Message list"

definition agent_add_message ::
    "'l TechWriterAgent \<Rightarrow> string \<Rightarrow> string \<Rightarrow> 'l TechWriterAgent" where
  "agent_add_message agent r c = agent\<lparr>memory := memory agent @ [\<lparr>role = r, content = c\<rparr>]\<rparr>"

text \<open>
  The model collaborator: from its state and the messages sent, the completion
  (\<^verbatim>\<open>choices[0].message.content\<close>) or \<^verbatim>\<open>NULL\<close> when the request fails or the body has no
  such text, and its next state. \<^verbatim>\<open>agent_call_llm\<close> sends the whole memory.
\<close>

type_synonym 'l llm = "'l \<Rightarrow> Message list \<Rightarrow> string option \<times> 'l"

definition agent_call_llm ::
    "'l llm \<Rightarrow> 'l TechWriterAgent \<Rightarrow> string option \<times> 'l TechWriterAgent" where
  "agent_call_llm llm agent =
     (case llm (client agent) (memory agent) of
        (response, c) \<Rightarrow> (response, agent\<lparr>client := c\<rparr>))"

text \<open>
  \<^verbatim>\<open>agent_execute_tool\<close>. The JSON text is parsed before the tool name is looked at; the
  name is then compared with \<^verbatim>\<open>strcmp\<close>, which dereferences it. The unknown-tool message
  is written by \<^verbatim>\<open>snprintf\<close> into a 256 byte buffer.
\<close>

definition agent_execute_tool ::
    "extern \<Rightarrow> filesys \<Rightarrow> nat \<Rightarrow> string option \<Rightarrow> string option \<Rightarrow> fault + string" where
  \<open>agent_execute_tool X fs fuel tool_name input_text =
     (case cJSON_Parse X input_text of
        None \<Rightarrow> Inr ''{"error": "Failed to parse input JSON"}''
      | Some input \<Rightarrow>
          (case tool_name of
             None \<Rightarrow> Inl NullDereference
           | Some name \<Rightarrow>
               if name = ''find_all_matching_files'' then
                 (let directory = cJSON_GetObjectItem X input ''directory'';
                      pattern = cJSON_GetObjectItem X input ''pattern'';
                      dir_str = (case directory of Some (cJSON_String s) \<Rightarrow> s | _ \<Rightarrow> []);
                      pat_str = (case pattern of Some (cJSON_String s) \<Rightarrow> s | _ \<Rightarrow> ''*'')
                  in find_all_matching_files X fs fuel dir_str pat_str)
               else if name = ''read_file'' then
                 (case cJSON_GetObjectItem X input ''file_path'' of
                    Some (cJSON_String s) \<Rightarrow> Inr (read_file_content X fs s)
                  | _ \<Rightarrow> Inr ''{"error": "file_path parameter required"}'')
               else Inr (take 255 (''{"error": "Unknown tool: '' @ name @ ''"}''))))\<close>

text \<open>
  \<^verbatim>\<open>obs_message\<close> is a variable-length array on the stack, of \<^verbatim>\<open>strlen(observation) + 20\<close>
  bytes, enough for the text written into it; nothing checks that the stack has room for
  it. \<open>stack_room\<close> is the number of bytes free on the stack where the array is declared,
  beyond a floor of 256 bytes. The floor is an assumption of the model: the array is declared
  when \<^verbatim>\<open>agent_execute_tool\<close> has just returned, the frame of that call held the buffer
  \<^verbatim>\<open>error[256]\<close>, and the stack it used is free again. An array that is larger than the floor
  and the room overruns the stack, and the process is killed.
\<close>

definition obs_message_fits :: "nat \<Rightarrow> string \<Rightarrow> bool" where
  "obs_message_fits stack_room observation \<longleftrightarrow> length observation + 20 \<le> 256 + stack_room"

text \<open>
  The \<^verbatim>\<open>for\<close> loop of \<^verbatim>\<open>agent_run\<close>, from the value \<open>step\<close> of its counter. It yields
  \<^verbatim>\<open>final_answer\<close> as the loop leaves it (\<^verbatim>\<open>NULL\<close> or the answer), the number of iterations
  entered, and the agent.
\<close>

function react_loop ::
    "extern \<Rightarrow> filesys \<Rightarrow> nat \<Rightarrow> nat \<Rightarrow> 'l llm \<Rightarrow> nat \<Rightarrow> 'l TechWriterAgent \<Rightarrow>
     fault + (string option \<times> nat \<times> 'l TechWriterAgent)" where
  "react_loop X fs stack_room fuel llm step agent =
     (if step < MAX_STEPS then
        (case agent_call_llm llm agent of
           (None, agent1) \<Rightarrow> Inr (None, Suc step, agent1)
         | (Some response, agent1) \<Rightarrow>
             (let agent2 = agent_add_message agent1 ''assistant'' response;
                  parsed = agent_parse_response response
              in if type parsed = RESPONSE_FINAL then
                   Inr (final_answer parsed, Suc step, agent2)
                 else if type parsed = RESPONSE_ACTION then
                   (case agent_execute_tool X fs fuel (action parsed) (action_input parsed) of
                      Inl e \<Rightarrow> Inl e
                    | Inr observation \<Rightarrow>
                        if obs_message_fits stack_room observation then
                          react_loop X fs stack_room fuel llm (Suc step)
                            (agent_add_message agent2 ''user''
                               (take (length observation + 19) (''Observation: '' @ observation)))
                        else Inl StackOverflow)
                 else react_loop X fs stack_room fuel llm (Suc step) agent2))
      else Inr (None, step, agent))"
  by pat_completeness auto
termination
  by (relation "measure (\<lambda>(X, fs, stack_room, fuel, llm, step, agent). MAX_STEPS - step)") auto

declare react_loop.simps [simp del]

text \<open>
  The states in which a run ends: \<open>DONE\<close> when the loop leaves a final answer, \<open>FAILED\<close>
  when it leaves \<^verbatim>\<open>NULL\<close> and the fallback string is returned.
\<close>

datatype run_state = DONE | FAILED

text \<open>
  What a call of \<^verbatim>\<open>agent_run\<close> leaves: the string returned, the state the loop ended in,
  the number of loop iterations entered, and the agent with its memory.
\<close>

record 'l run_result =
  run_answer :: string
  run_end :: run_state
  run_iterations :: nat
  run_agent :: "'l TechWriterAgent"

text \<open>\<^verbatim>\<open>agent_run\<close>; \<^verbatim>\<open>user_prompt\<close> is a 2048 byte buffer written by \<^verbatim>\<open>snprintf\<close>.\<close>

definition agent_run ::
    "extern \<Rightarrow> filesys \<Rightarrow> nat \<Rightarrow> nat \<Rightarrow> 'l llm \<Rightarrow> 'l TechWriterAgent \<Rightarrow> string \<Rightarrow> string \<Rightarrow>
     fault + 'l run_result" where
  "agent_run X fs stack_room fuel llm agent prompt directory =
     (let agent1 = agent_add_message agent ''system'' REACT_SYSTEM_PROMPT;
          user_prompt =
            take 2047 (''Base directory for analysis: '' @ directory @ ''\<newline>\<newline>'' @ prompt);
          agent2 = agent_add_message agent1 ''user'' user_prompt
      in case react_loop X fs stack_room fuel llm 0 agent2 of
           Inl e \<Rightarrow> Inl e
         | Inr (final, iters, agent3) \<Rightarrow>
             Inr \<lparr>run_answer =
                    (case final of None \<Rightarrow> ''Failed to complete analysis'' | Some a \<Rightarrow> a),
                  run_end = (case final of None \<Rightarrow> FAILED | Some a \<Rightarrow> DONE),
                  run_iterations = iters,
                  run_agent = agent3\<rparr>)"

text \<open>A model collaborator that replays a script: one completion per call, then failure.\<close>

definition scripted :: "string list llm" where
  "scripted script messages =
     (case script of [] \<Rightarrow> (None, []) | r # rs \<Rightarrow> (Some r, rs))"

section \<open>Notions of the specification\<close>

text \<open>
  \<open>first_occurrence needle hay i\<close>: \<open>needle\<close> occurs in \<open>hay\<close> at offset \<open>i\<close> and at no
  smaller offset. \<open>sublist needle hay\<close> (of the library): \<open>needle\<close> occurs somewhere.
\<close>

definition first_occurrence :: "string \<Rightarrow> string \<Rightarrow> nat \<Rightarrow> bool" where
  "first_occurrence needle hay i \<longleftrightarrow>
     i \<le> length hay \<and> prefix needle (drop i hay) \<and> (\<forall>j<i. \<not> prefix needle (drop j hay))"

text \<open>
  The segments of a path delimited by a slash or a backslash, in the specification's
  words: the pieces between consecutive delimiters (empty ones included).
\<close>

definition is_delim :: "char \<Rightarrow> bool" where
  "is_delim c \<longleftrightarrow> c = CHR ''/'' \<or> c = CHR 0x5C"

fun spec_path_segments :: "string \<Rightarrow> string list" where
  "spec_path_segments [] = [] # []"
| "spec_path_segments (c # cs) =
     (if is_delim c then [] # spec_path_segments cs
      else (case spec_path_segments cs of
              [] \<Rightarrow> [c] # []
            | s # ss \<Rightarrow> (c # s) # ss))"

text \<open>
  The ignore test in the specification's words: some loaded pattern occurs in the path,
  or ends it, or equals one of its segments.
\<close>

definition spec_should_ignore :: "GitIgnore option \<Rightarrow> string \<Rightarrow> bool" where
  "spec_should_ignore ignore path \<longleftrightarrow>
     (case ignore of
        None \<Rightarrow> False
      | Some patterns \<Rightarrow>
          (\<exists>pattern \<in> set patterns.
             sublist pattern path \<or> suffix pattern path \<or>
             pattern \<in> set (spec_path_segments path)))"

section \<open>A small instance of the external functions\<close>

text \<open>
  A JSON library that knows three texts and prints flat arrays and objects of strings, a
  \<^verbatim>\<open>fnmatch\<close> for patterns without wildcards, and a file system with one directory
  \<^verbatim>\<open>.\<close> holding \<^verbatim>\<open>README.md\<close> and \<^verbatim>\<open>main.c\<close>. They serve to run the model on concrete inputs.
\<close>

definition demo_parse :: "string option \<Rightarrow> cJSON option" where
  \<open>demo_parse t =
     (if t = Some ''{}'' then Some (cJSON_Object [])
      else if t = Some ''{"directory": ".", "pattern": "*.md"}'' then
        Some (cJSON_Object [(''directory'', cJSON_String ''.''), (''pattern'', cJSON_String ''*.md'')])
      else if t = Some ''{"file_path": "./README.md"}'' then
        Some (cJSON_Object [(''file_path'', cJSON_String ''./README.md'')])
      else None)\<close>

definition demo_get :: "cJSON \<Rightarrow> string \<Rightarrow> cJSON option" where
  "demo_get j k = (case j of cJSON_Object kvs \<Rightarrow> map_of kvs k | _ \<Rightarrow> None)"

fun demo_quote :: "cJSON \<Rightarrow> string" where
  \<open>demo_quote (cJSON_String s) = ''"'' @ s @ ''"''\<close>
| \<open>demo_quote _ = ''null''\<close>

fun demo_join :: "string list \<Rightarrow> string" where
  "demo_join [] = []"
| "demo_join [x] = x"
| "demo_join (x # y # ys) = x @ '','' @ demo_join (y # ys)"

fun demo_print :: "cJSON \<Rightarrow> string" where
  \<open>demo_print (cJSON_Array xs) = ''['' @ demo_join (map demo_quote xs) @ '']''\<close>
| \<open>demo_print (cJSON_Object kvs) =
     ''{'' @ demo_join (map (\<lambda>(k, v). ''"'' @ k @ ''":'' @ demo_quote v) kvs) @ ''}''\<close>
| \<open>demo_print j = demo_quote j\<close>

definition demo_extern :: extern where
  "demo_extern =
     \<lparr>cJSON_Parse = demo_parse, cJSON_GetObjectItem = demo_get,
      cJSON_PrintUnformatted = demo_print, fnmatch = (\<lambda>pattern s. pattern = s)\<rparr>"

definition demo_fs :: filesys where
  "demo_fs =
     \<lparr>fs_stat = (\<lambda>p. if p = ''.'' then Some S_IFDIR
                     else if p = ''./README.md'' \<or> p = ''./main.c'' then Some S_IFREG
                     else None),
      fs_access = (\<lambda>p. p = ''.'' \<or> p = ''./README.md'' \<or> p = ''./main.c''),
      fs_fopen = (\<lambda>p. if p = ''./README.md'' then Some ''# Demo''
                      else if p = ''./main.c'' then Some ''int main(void) { return 0; }''
                      else None),
      fs_opendir = (\<lambda>p. if p = ''.'' then Some [''.'', ''..'', ''README.md'', ''main.c'']
                        else None)\<rparr>"



text \<open>
  A file system where every directory holds the entry \<^verbatim>\<open>loop\<close>, a link back to the directory
  itself: every path names a directory, and no file exists.
\<close>

definition loop_fs :: filesys where
  "loop_fs =
     \<lparr>fs_stat = (\<lambda>p. Some S_IFDIR), fs_access = (\<lambda>p. False), fs_fopen = (\<lambda>p. None),
      fs_opendir = (\<lambda>p. Some [''.'', ''..'', ''loop''])\<rparr>"

section \<open>Facts about the string functions\<close>

text \<open>\<^verbatim>\<open>strstr\<close> fails exactly when the needle does not occur, and finds the first occurrence.\<close>

lemma strstr_None_iff: "strstr hay needle = None \<longleftrightarrow> \<not> sublist needle hay"
  by (induction hay) (auto simp: sublist_Cons_right)

lemma strstr_Some_first: "strstr hay needle = Some i \<Longrightarrow> first_occurrence needle hay i"
proof (induction hay arbitrary: i)
  case Nil
  then show ?case by (simp add: first_occurrence_def split: if_splits)
next
  case (Cons c cs)
  show ?case
  proof (cases "prefix needle (c # cs)")
    case True
    with Cons.prems show ?thesis by (simp add: first_occurrence_def)
  next
    case False
    with Cons.prems obtain k where k: "strstr cs needle = Some k" and i: "i = Suc k"
      by auto
    from Cons.IH [OF k] have fo: "first_occurrence needle cs k" .
    have "\<not> prefix needle (drop j (c # cs))" if "j < Suc k" for j
    proof (cases j)
      case 0
      with False show ?thesis by simp
    next
      case (Suc m)
      with that fo show ?thesis by (simp add: first_occurrence_def)
    qed
    with fo i show ?thesis by (simp add: first_occurrence_def)
  qed
qed

lemma first_occurrence_unique:
  "first_occurrence needle hay i \<Longrightarrow> first_occurrence needle hay j \<Longrightarrow> i = j"
  unfolding first_occurrence_def by (meson linorder_neqE_nat)

lemma strstr_Some_iff: "strstr hay needle = Some i \<longleftrightarrow> first_occurrence needle hay i"
proof
  assume "strstr hay needle = Some i"
  then show "first_occurrence needle hay i" by (rule strstr_Some_first)
next
  assume fo: "first_occurrence needle hay i"
  then have "prefix needle (drop i hay)" by (simp add: first_occurrence_def)
  then obtain zs where "drop i hay = needle @ zs" by (auto simp: prefix_def)
  then have "hay = take i hay @ needle @ zs" by (metis append_take_drop_id)
  then have "sublist needle hay" unfolding sublist_def by blast
  then obtain k where k: "strstr hay needle = Some k"
    using strstr_None_iff by (cases "strstr hay needle") auto
  from strstr_Some_first [OF k] fo have "k = i" by (rule first_occurrence_unique)
  with k show "strstr hay needle = Some i" by simp
qed

lemma strstr_char_None: "c \<notin> set s \<Longrightarrow> strstr s [c] = None"
  by (induction s) auto

text \<open>\<^verbatim>\<open>string_ends_with\<close> is the suffix test.\<close>

lemma string_ends_with_suffix: "string_ends_with str suf \<longleftrightarrow> suffix suf str"
proof
  assume "string_ends_with str suf"
  then have "drop (length str - length suf) str = suf"
    by (simp add: string_ends_with_def split: if_splits)
  then show "suffix suf str" by (metis suffix_drop)
next
  assume "suffix suf str"
  then obtain pre where "str = pre @ suf" by (auto simp: suffix_def)
  then show "string_ends_with str suf" by (simp add: string_ends_with_def)
qed

text \<open>
  The tokens that \<^verbatim>\<open>strtok\<close> yields for the delimiters slash and backslash are the
  non-empty segments of the path, in order; so the token loop of
  \<^verbatim>\<open>gitignore_should_ignore\<close> finds a pattern exactly when the pattern is a non-empty segment.
\<close>

lemma is_delim_path_delims: "c \<in> set path_delims \<longleftrightarrow> is_delim c"
  by (auto simp: path_delims_def is_delim_def)

lemma segments_takeWhile:
  "spec_path_segments s =
     takeWhile (\<lambda>c. \<not> is_delim c) s #
     (case dropWhile (\<lambda>c. \<not> is_delim c) s of [] \<Rightarrow> [] | d # r \<Rightarrow> spec_path_segments r)"
proof (induction s)
  case Nil
  then show ?case by simp
next
  case (Cons c cs)
  then show ?case by (cases "spec_path_segments cs") (auto simp: is_delim_def)
qed

lemma segments_skip_delims:
  "filter (\<lambda>x. x \<noteq> []) (spec_path_segments (dropWhile is_delim s)) =
   filter (\<lambda>x. x \<noteq> []) (spec_path_segments s)"
  by (induction s) (auto simp: is_delim_def)

lemma strtok_None_segments:
  assumes "strtok s path_delims = None"
  shows "filter (\<lambda>x. x \<noteq> []) (spec_path_segments s) = []"
proof -
  from assms have "dropWhile is_delim s = []"
    by (simp add: strtok_def Let_def is_delim_path_delims split: if_splits)
  then have "filter (\<lambda>x. x \<noteq> []) (spec_path_segments (dropWhile is_delim s)) =
      filter (\<lambda>x. x \<noteq> []) (spec_path_segments [])"
    by (simp only:)
  also have "\<dots> = []" by simp
  finally show ?thesis by (simp only: segments_skip_delims)
qed

lemma strtok_Some_segments:
  assumes "strtok s path_delims = Some (t, r)"
  shows "filter (\<lambda>x. x \<noteq> []) (spec_path_segments s) =
           t # filter (\<lambda>x. x \<noteq> []) (spec_path_segments r)"
proof -
  let ?s1 = "dropWhile is_delim s"
  from assms have ne: "?s1 \<noteq> []"
    and t: "t = takeWhile (\<lambda>c. \<not> is_delim c) ?s1"
    and r: "r = drop 1 (dropWhile (\<lambda>c. \<not> is_delim c) ?s1)"
    by (auto simp: strtok_def Let_def is_delim_path_delims split: if_splits)
  from ne have "\<not> is_delim (hd ?s1)" using hd_dropWhile by metis
  with ne t have tne: "t \<noteq> []" by (cases ?s1) auto
  have seg: "spec_path_segments ?s1 =
      t # (case dropWhile (\<lambda>c. \<not> is_delim c) ?s1 of [] \<Rightarrow> [] | d # r \<Rightarrow> spec_path_segments r)"
    unfolding t by (rule segments_takeWhile)
  have "filter (\<lambda>x. x \<noteq> []) (spec_path_segments ?s1) =
        t # filter (\<lambda>x. x \<noteq> []) (spec_path_segments r)"
  proof (cases "dropWhile (\<lambda>c. \<not> is_delim c) ?s1")
    case Nil
    with r have "r = []" by simp
    moreover from seg Nil have "spec_path_segments ?s1 = [t]" by (simp only: list.case)
    ultimately show ?thesis using tne by simp
  next
    case (Cons d r')
    with r have "r = r'" by simp
    moreover from seg Cons have "spec_path_segments ?s1 = t # spec_path_segments r'"
      by (simp only: list.case)
    ultimately show ?thesis using tne by simp
  qed
  then show ?thesis by (simp only: segments_skip_delims)
qed

lemma strtok_shorter:
  assumes "strtok s path_delims = Some (t, r)"
  shows "length r < length s"
proof -
  let ?s1 = "dropWhile (\<lambda>c. c \<in> set path_delims) s"
  from assms have ne: "?s1 \<noteq> []"
    and r: "r = drop 1 (dropWhile (\<lambda>c. c \<notin> set path_delims) ?s1)"
    by (auto simp: strtok_def Let_def split: if_splits)
  from ne have "hd ?s1 \<notin> set path_delims" using hd_dropWhile by metis
  with ne have "length (dropWhile (\<lambda>c. c \<notin> set path_delims) ?s1) < length ?s1"
    by (cases ?s1) (auto simp: le_imp_less_Suc length_dropWhile_le)
  moreover have "length ?s1 \<le> length s" by (rule length_dropWhile_le)
  ultimately show ?thesis using r by simp
qed

lemma token_loop_segments:
  "token_loop pattern (strtok s path_delims) \<longleftrightarrow>
     pattern \<noteq> [] \<and> pattern \<in> set (spec_path_segments s)"
proof (induction s rule: length_induct)
  case (1 s)
  show ?case
  proof (cases "strtok s path_delims")
    case None
    from strtok_None_segments [OF None]
    have "pattern \<noteq> [] \<Longrightarrow> pattern \<notin> set (spec_path_segments s)"
      by (metis (mono_tags, lifting) empty_filter_conv)
    with None show ?thesis by auto
  next
    case (Some tr)
    obtain t r where tr: "tr = (t, r)" by (cases tr)
    with Some have st: "strtok s path_delims = Some (t, r)" by simp
    from strtok_shorter [OF st] "1.IH"
    have ih: "token_loop pattern (strtok r path_delims) \<longleftrightarrow>
        pattern \<noteq> [] \<and> pattern \<in> set (spec_path_segments r)"
      by blast
    have "pattern \<noteq> [] \<and> pattern \<in> set (spec_path_segments s) \<longleftrightarrow>
        pattern \<in> set (filter (\<lambda>x. x \<noteq> []) (spec_path_segments s))"
      by auto
    also have "\<dots> \<longleftrightarrow> pattern = t \<or> pattern \<in> set (filter (\<lambda>x. x \<noteq> []) (spec_path_segments r))"
      by (simp only: strtok_Some_segments [OF st]) auto
    also have "\<dots> \<longleftrightarrow> t = pattern \<or> token_loop pattern (strtok r path_delims)"
      using ih by auto
    finally show ?thesis using st by simp
  qed
qed

lemma patterns_loop_tests:
  "patterns_loop patterns path \<longleftrightarrow>
     (\<exists>pattern \<in> set patterns.
        sublist pattern path \<or> suffix pattern path \<or>
        pattern \<noteq> [] \<and> pattern \<in> set (spec_path_segments path))"
  by (induction patterns)
    (simp_all add: strstr_None_iff string_ends_with_suffix token_loop_segments)

section \<open>Facts about the fuel\<close>

text \<open>
  A directory walk that ends within some recursion depth gives the same list within any
  greater depth, and so do the tool and the dispatcher: the fuel only decides whether a
  result is reached, never which.
\<close>

lemma for_each_mono:
  assumes "\<And>x s r. x \<in> set xs \<Longrightarrow> f x s = Inr r \<Longrightarrow> g x s = Inr r"
  shows "for_each xs f s = Inr r \<Longrightarrow> for_each xs g s = Inr r"
  using assms
proof (induction xs arbitrary: s)
  case Nil
  then show ?case by simp
next
  case (Cons x xs)
  from Cons.prems(1) obtain s' where fx: "f x s = Inr s'" and rest: "for_each xs f s' = Inr r"
    by (auto split: sum.splits)
  from Cons.prems(2) [of x s s'] fx have gx: "g x s = Inr s'" by simp
  from Cons.IH [OF rest] Cons.prems(2) have "for_each xs g s' = Inr r" by simp
  with gx show ?case by simp
qed

lemma traverse_directory_more_fuel:
  "traverse_directory X fs n directory pattern results gitignore base_dir = Inr r \<Longrightarrow>
   traverse_directory X fs (n + k) directory pattern results gitignore base_dir = Inr r"
proof (induction n arbitrary: directory results r)
  case 0
  then show ?case by simp
next
  case (Suc n)
  show ?case
  proof (cases "fs_opendir fs directory")
    case None
    with Suc.prems show ?thesis by simp
  next
    case (Some entries)
    with Suc.prems Suc.IH show ?thesis
      by (auto simp: Let_def elim!: for_each_mono [rotated] split: if_splits option.splits st_mode.splits)
  qed
qed

lemma find_all_matching_files_more_fuel:
  "find_all_matching_files X fs n directory pattern = Inr r \<Longrightarrow>
   find_all_matching_files X fs (n + k) directory pattern = Inr r"
  by (auto simp: find_all_matching_files_def Let_def traverse_directory_more_fuel
      split: if_splits sum.splits)

lemma agent_execute_tool_more_fuel:
  "agent_execute_tool X fs n tool_name input_text = Inr r \<Longrightarrow>
   agent_execute_tool X fs (n + k) tool_name input_text = Inr r"
  by (auto simp: agent_execute_tool_def Let_def find_all_matching_files_more_fuel
      split: option.splits if_splits)





text \<open>
  Where a directory is reached again from itself the walk ends within no recursion depth:
  the code has no guard against a cycle of links.
\<close>

lemma traverse_directory_loop_fs:
  "traverse_directory X loop_fs n directory pattern results None base_dir = Inl OutOfFuel"
  by (induction n arbitrary: directory results) (simp_all add: loop_fs_def stat_def Let_def)

lemma find_all_matching_files_loop_fs:
  "find_all_matching_files X loop_fs n ''.'' pattern = Inl OutOfFuel"
proof -
  have "gitignore_load loop_fs ''.'' = None"
    by (simp add: gitignore_load_def platform_file_exists_def loop_fs_def)
  moreover have "platform_is_directory loop_fs ''.''"
    by (simp add: platform_is_directory_def stat_def loop_fs_def)
  ultimately show ?thesis
    by (simp add: find_all_matching_files_def traverse_directory_loop_fs)
qed

section \<open>Facts about the agent loop\<close>

text \<open>The observation always fits the buffer \<^verbatim>\<open>obs_message\<close>.\<close>

lemma observation_fits:
  "take (length observation + 19) (''Observation: '' @ observation) = ''Observation: '' @ observation"
  by simp





text \<open>
  When every completion is unrecognised, the loop runs to the step limit and appends one
  assistant message per iteration.
\<close>

lemma react_loop_unknown:
  assumes llm: "\<forall>c messages. \<exists>r c'. llm c messages = (Some r, c') \<and>
                  type (agent_parse_response r) = RESPONSE_UNKNOWN"
  shows "n = MAX_STEPS - step \<Longrightarrow> step \<le> MAX_STEPS \<Longrightarrow>
         \<exists>agent' rs. react_loop X fs stack_room fuel llm step agent = Inr (None, MAX_STEPS, agent') \<and>
            length rs = n \<and>
            memory agent' = memory agent @ map (\<lambda>r. \<lparr>role = ''assistant'', content = r\<rparr>) rs"
proof (induction n arbitrary: step agent)
  case 0
  then have "step = MAX_STEPS" by simp
  then have "react_loop X fs stack_room fuel llm step agent = Inr (None, MAX_STEPS, agent)"
    by (subst react_loop.simps) simp
  then show ?case by simp
next
  case (Suc n)
  then have lt: "step < MAX_STEPS" by simp
  from llm obtain r c' where r: "llm (client agent) (memory agent) = (Some r, c')"
    and u: "type (agent_parse_response r) = RESPONSE_UNKNOWN"
    by blast
  let ?agent2 = "agent_add_message (agent\<lparr>client := c'\<rparr>) ''assistant'' r"
  from lt r u have step: "react_loop X fs stack_room fuel llm step agent =
      react_loop X fs stack_room fuel llm (Suc step) ?agent2"
    by (subst react_loop.simps) (simp add: agent_call_llm_def Let_def)
  from Suc.prems have "n = MAX_STEPS - Suc step" and "Suc step \<le> MAX_STEPS" by simp_all
  from Suc.IH [OF this, of ?agent2] obtain agent' rs
    where res: "react_loop X fs stack_room fuel llm (Suc step) ?agent2 = Inr (None, MAX_STEPS, agent')"
      and len: "length rs = n"
      and mem: "memory agent' =
        memory ?agent2 @ map (\<lambda>r. \<lparr>role = ''assistant'', content = r\<rparr>) rs"
    by blast
  from mem have "memory agent' =
      memory agent @ map (\<lambda>r. \<lparr>role = ''assistant'', content = r\<rparr>) (r # rs)"
    by (simp add: agent_add_message_def)
  moreover from len have "length (r # rs) = Suc n" by simp
  ultimately show ?case using step res by metis
qed

section \<open>The claims\<close>

subsection \<open>C1: a final answer wins\<close>

text \<open>
  Claim C1, as amended. For every completion text in which the marker \<^verbatim>\<open>Final Answer:\<close>
  occurs anywhere, whatever comes before it (the tool-call markers included),
  \<^verbatim>\<open>agent_parse_response\<close> returns the outcome \<^verbatim>\<open>RESPONSE_FINAL\<close> with no tool name and no
  argument payload, and the payload of the final answer is the text behind the first
  occurrence of the marker without its leading whitespace. Trailing whitespace is kept.
\<close>

theorem parse_final_answer_wins:
  assumes "sublist final_answer_marker response"
  shows "\<exists>i. first_occurrence final_answer_marker response i \<and>
           agent_parse_response response =
             \<lparr>type = RESPONSE_FINAL, action = None, action_input = None,
              final_answer =
                Some (dropWhile isspace (drop (i + length final_answer_marker) response))\<rparr>"
proof -
  from assms obtain i where i: "strstr response final_answer_marker = Some i"
    using strstr_None_iff by (cases "strstr response final_answer_marker") auto
  then have "first_occurrence final_answer_marker response i"
    by (simp add: strstr_Some_iff)
  moreover from i have "agent_parse_response response =
      \<lparr>type = RESPONSE_FINAL, action = None, action_input = None,
       final_answer =
         Some (dropWhile isspace (drop (i + length final_answer_marker) response))\<rparr>"
    by (simp add: agent_parse_response_def)
  ultimately show ?thesis by blast
qed

text \<open>
  The theorem at a completion that has both tool-call markers before the final answer.
\<close>

theorem parse_final_answer_wins_witness:
  "sublist final_answer_marker
     ''Action: read_file\<newline>Action Input: {}\<newline>Final Answer: Done.\<newline>'' \<and>
   agent_parse_response
     ''Action: read_file\<newline>Action Input: {}\<newline>Final Answer: Done.\<newline>'' =
     \<lparr>type = RESPONSE_FINAL, action = None, action_input = None,
      final_answer = Some ''Done.\<newline>''\<rparr>"
proof -
  let ?r = "''Action: read_file\<newline>Action Input: {}\<newline>Final Answer: Done.\<newline>''"
  have s: "strstr ?r final_answer_marker = Some 35"
    by (simp add: final_answer_marker_def)
  then have h: "sublist final_answer_marker ?r"
    using strstr_None_iff [of ?r final_answer_marker] by simp
  from parse_final_answer_wins [OF h] obtain i
    where fo: "first_occurrence final_answer_marker ?r i"
      and p: "agent_parse_response ?r =
        \<lparr>type = RESPONSE_FINAL, action = None, action_input = None,
         final_answer = Some (dropWhile isspace (drop (i + length final_answer_marker) ?r))\<rparr>"
    by blast
  from s have "first_occurrence final_answer_marker ?r 35" using strstr_Some_iff by blast
  with fo have "i = 35" by (rule first_occurrence_unique)
  with p have "agent_parse_response ?r =
        \<lparr>type = RESPONSE_FINAL, action = None, action_input = None,
         final_answer = Some ''Done.\<newline>''\<rparr>"
    by (simp add: final_answer_marker_def isspace_def)
  with h show ?thesis by blast
qed

text \<open>
  C1 as stated has the payload trimmed of whitespace, which \<^verbatim>\<open>string_trim\<close> does at both
  ends. The parser keeps the newline that ends the completion.
\<close>

theorem parse_final_answer_trailing_counterexample:
  "final_answer (agent_parse_response ''Final Answer: Done.\<newline>'') = Some ''Done.\<newline>'' \<and>
   string_trim (drop (length final_answer_marker) ''Final Answer: Done.\<newline>'') = ''Done.'' \<and>
   final_answer (agent_parse_response ''Final Answer: Done.\<newline>'') \<noteq>
     Some (string_trim (drop (length final_answer_marker) ''Final Answer: Done.\<newline>''))"
  by (simp add: agent_parse_response_def final_answer_marker_def string_trim_def isspace_def)

subsection \<open>C2: the step budget\<close>

text \<open>
  Claim C2. If every call of the model collaborator yields a completion, and every
  completion parses as \<^verbatim>\<open>RESPONSE_UNKNOWN\<close>, then \<^verbatim>\<open>agent_run\<close> returns (no fault), ends in
  the failed state with the fallback string \<^verbatim>\<open>Failed to complete analysis\<close> after exactly
  50 iterations, and the memory is the one it started with, the system and the user
  message, and 50 assistant messages: no observation is appended.
\<close>

theorem agent_run_step_budget:
  assumes "\<forall>c messages. \<exists>r c'. llm c messages = (Some r, c') \<and>
             type (agent_parse_response r) = RESPONSE_UNKNOWN"
  shows "\<exists>res rs. agent_run X fs stack_room fuel llm agent prompt directory = Inr res \<and>
           run_end res = FAILED \<and>
           run_answer res = ''Failed to complete analysis'' \<and>
           run_iterations res = 50 \<and>
           length rs = 50 \<and>
           memory (run_agent res) =
             memory agent @
             [\<lparr>role = ''system'', content = REACT_SYSTEM_PROMPT\<rparr>,
              \<lparr>role = ''user'',
               content = take 2047 (''Base directory for analysis: '' @ directory @
                                     ''\<newline>\<newline>'' @ prompt)\<rparr>] @
             map (\<lambda>r. \<lparr>role = ''assistant'', content = r\<rparr>) rs"
proof -
  let ?agent2 = "agent_add_message (agent_add_message agent ''system'' REACT_SYSTEM_PROMPT) ''user''
      (take 2047 (''Base directory for analysis: '' @ directory @ ''\<newline>\<newline>'' @ prompt))"
  from react_loop_unknown [OF assms, of 50 0 X fs stack_room fuel ?agent2] obtain agent' rs
    where res: "react_loop X fs stack_room fuel llm 0 ?agent2 = Inr (None, MAX_STEPS, agent')"
      and len: "length rs = 50"
      and mem: "memory agent' =
        memory ?agent2 @ map (\<lambda>r. \<lparr>role = ''assistant'', content = r\<rparr>) rs"
    by (auto simp: MAX_STEPS_def)
  let ?res = "\<lparr>run_answer = ''Failed to complete analysis'', run_end = FAILED,
               run_iterations = MAX_STEPS, run_agent = agent'\<rparr>"
  from res have "agent_run X fs stack_room fuel llm agent prompt directory = Inr ?res"
    by (simp add: agent_run_def Let_def)
  moreover from mem have "memory (run_agent ?res) =
             memory agent @
             [\<lparr>role = ''system'', content = REACT_SYSTEM_PROMPT\<rparr>,
              \<lparr>role = ''user'',
               content = take 2047 (''Base directory for analysis: '' @ directory @
                                     ''\<newline>\<newline>'' @ prompt)\<rparr>] @
             map (\<lambda>r. \<lparr>role = ''assistant'', content = r\<rparr>) rs"
    by (simp add: agent_add_message_def)
  moreover have "run_iterations ?res = 50" by (simp add: MAX_STEPS_def)
  ultimately show ?thesis using len
    by (intro exI [of _ ?res] exI [of _ rs]) simp
qed

text \<open>The theorem at a collaborator that always answers with the same plain sentence.\<close>

theorem agent_run_step_budget_witness:
  "(\<forall>c messages. \<exists>r c'. (\<lambda>(c :: unit) (m :: Message list). (Some ''I am still thinking.'', c)) c messages = (Some r, c') \<and>
       type (agent_parse_response r) = RESPONSE_UNKNOWN) \<and>
   (\<exists>res rs. agent_run demo_extern demo_fs 0 0 (\<lambda>c m. (Some ''I am still thinking.'', c))
                 \<lparr>client = (), memory = []\<rparr> ''Describe the project.'' ''.'' = Inr res \<and>
           run_end res = FAILED \<and>
           run_answer res = ''Failed to complete analysis'' \<and>
           run_iterations res = 50 \<and>
           length rs = 50 \<and>
           memory (run_agent res) =
             [\<lparr>role = ''system'', content = REACT_SYSTEM_PROMPT\<rparr>,
              \<lparr>role = ''user'',
               content = ''Base directory for analysis: .\<newline>\<newline>Describe the project.''\<rparr>] @
             map (\<lambda>r. \<lparr>role = ''assistant'', content = r\<rparr>) rs)"
proof -
  let ?llm = "\<lambda>(c :: unit) (m :: Message list). (Some ''I am still thinking.'', c)"
  have u: "type (agent_parse_response ''I am still thinking.'') = RESPONSE_UNKNOWN"
    by (simp add: agent_parse_response_def final_answer_marker_def action_marker_def
        input_marker_def)
  then have h: "\<forall>c messages. \<exists>r c'. ?llm c messages = (Some r, c') \<and>
       type (agent_parse_response r) = RESPONSE_UNKNOWN"
    by simp
  from agent_run_step_budget [OF h, of demo_extern demo_fs 0 0 "\<lparr>client = (), memory = []\<rparr>"
      "''Describe the project.''" "''.''"]
  have "\<exists>res rs. agent_run demo_extern demo_fs 0 0 ?llm
                 \<lparr>client = (), memory = []\<rparr> ''Describe the project.'' ''.'' = Inr res \<and>
           run_end res = FAILED \<and>
           run_answer res = ''Failed to complete analysis'' \<and>
           run_iterations res = 50 \<and>
           length rs = 50 \<and>
           memory (run_agent res) =
             [\<lparr>role = ''system'', content = REACT_SYSTEM_PROMPT\<rparr>,
              \<lparr>role = ''user'',
               content = ''Base directory for analysis: .\<newline>\<newline>Describe the project.''\<rparr>] @
             map (\<lambda>r. \<lparr>role = ''assistant'', content = r\<rparr>) rs"
    by simp
  with h show ?thesis by blast
qed

subsection \<open>C3: two tool calls and a final answer\<close>




subsection \<open>C4: a tool name without a line break\<close>

text \<open>
  Claim C4 says that a completion with both markers and no line break behind \<^verbatim>\<open>Action:\<close>
  is dispatched to the unknown-tool error and never crashes. The code does otherwise: for
  every completion without a final answer, with the first \<^verbatim>\<open>Action:\<close> before the first
  \<^verbatim>\<open>Action Input:\<close> and no newline from \<^verbatim>\<open>Action:\<close> on, the parser leaves the tool name
  \<^verbatim>\<open>NULL\<close>, and if the payload parses as JSON the dispatcher hands that \<^verbatim>\<open>NULL\<close> to
  \<^verbatim>\<open>strcmp\<close>.
\<close>

theorem execute_tool_null_name:
  assumes "\<not> sublist final_answer_marker response"
    and "first_occurrence action_marker response a"
    and "first_occurrence input_marker response i"
    and "a < i"
    and "CHR ''\<newline>'' \<notin> set (drop a response)"
    and "cJSON_Parse X (action_input (agent_parse_response response)) \<noteq> None"
  shows "type (agent_parse_response response) = RESPONSE_ACTION \<and>
         action (agent_parse_response response) = None \<and>
         agent_execute_tool X fs fuel (action (agent_parse_response response))
           (action_input (agent_parse_response response)) = Inl NullDereference"
proof -
  from assms(1) have f: "strstr response final_answer_marker = None"
    by (simp add: strstr_None_iff)
  from assms(2) have a: "strstr response action_marker = Some a"
    by (simp add: strstr_Some_iff)
  from assms(3) have i: "strstr response input_marker = Some i"
    by (simp add: strstr_Some_iff)
  let ?action_str = "dropWhile isspace (drop (a + length action_marker) response)"
  have "set ?action_str \<subseteq> set (drop (a + length action_marker) response)"
    by (auto dest: set_dropWhileD)
  also have "\<dots> \<subseteq> set (drop a response)"
    by (rule set_drop_subset_set_drop) simp
  finally have "CHR ''\<newline>'' \<notin> set ?action_str" using assms(5) by blast
  then have n: "strstr ?action_str ''\<newline>'' = None" by (rule strstr_char_None)
  from f a i assms(4) n have t: "type (agent_parse_response response) = RESPONSE_ACTION"
    and an: "action (agent_parse_response response) = None"
    by (simp_all add: agent_parse_response_def Let_def)
  from assms(6) an have "agent_execute_tool X fs fuel (action (agent_parse_response response))
           (action_input (agent_parse_response response)) = Inl NullDereference"
    by (auto simp: agent_execute_tool_def)
  with t an show ?thesis by simp
qed

text \<open>The theorem at the completion \<^verbatim>\<open>Action: read_file Action Input: {}\<close>.\<close>

theorem execute_tool_null_name_witness:
  "type (agent_parse_response ''Action: read_file Action Input: {}'') = RESPONSE_ACTION \<and>
   action (agent_parse_response ''Action: read_file Action Input: {}'') = None \<and>
   action_input (agent_parse_response ''Action: read_file Action Input: {}'') = Some ''{}'' \<and>
   cJSON_Parse demo_extern (Some ''{}'') \<noteq> None \<and>
   agent_execute_tool demo_extern demo_fs 0
     (action (agent_parse_response ''Action: read_file Action Input: {}''))
     (action_input (agent_parse_response ''Action: read_file Action Input: {}'')) =
     Inl NullDereference"
proof -
  let ?r = "''Action: read_file Action Input: {}''"
  have "strstr ?r final_answer_marker = None" by (simp add: final_answer_marker_def)
  then have h1: "\<not> sublist final_answer_marker ?r" using strstr_None_iff by blast
  have "strstr ?r action_marker = Some 0" by (simp add: action_marker_def)
  then have h2: "first_occurrence action_marker ?r 0" using strstr_Some_iff by blast
  have "strstr ?r input_marker = Some 18" by (simp add: input_marker_def)
  then have h3: "first_occurrence input_marker ?r 18" using strstr_Some_iff by blast
  have h4: "(0::nat) < 18" by simp
  have h5: "CHR ''\<newline>'' \<notin> set (drop 0 ?r)" by simp
  have p: "action_input (agent_parse_response ?r) = Some ''{}''"
    by (simp add: agent_parse_response_def final_answer_marker_def action_marker_def
        input_marker_def string_trim_def isspace_def Let_def)
  have q: "cJSON_Parse demo_extern (Some ''{}'') \<noteq> None"
    by (simp add: demo_extern_def demo_parse_def)
  with p have h6: "cJSON_Parse demo_extern (action_input (agent_parse_response ?r)) \<noteq> None"
    by simp
  from execute_tool_null_name [OF h1 h2 h3 h4 h5 h6, of demo_fs 0] p q show ?thesis by blast
qed

subsection \<open>C5: the markers in reversed order\<close>

text \<open>
  Claim C5. For every completion text without the marker \<^verbatim>\<open>Final Answer:\<close> in which the
  first occurrence of \<^verbatim>\<open>Action Input:\<close> comes before the first occurrence of \<^verbatim>\<open>Action:\<close>,
  \<^verbatim>\<open>agent_parse_response\<close> returns the outcome \<^verbatim>\<open>RESPONSE_UNKNOWN\<close> with no tool name and no
  argument payload.
\<close>

theorem parse_reversed_order_unknown:
  assumes "\<not> sublist final_answer_marker response"
    and "first_occurrence input_marker response i"
    and "first_occurrence action_marker response a"
    and "i < a"
  shows "agent_parse_response response =
           \<lparr>type = RESPONSE_UNKNOWN, action = None, action_input = None, final_answer = None\<rparr>"
proof -
  from assms(1) have "strstr response final_answer_marker = None"
    by (simp add: strstr_None_iff)
  moreover from assms(2) have "strstr response input_marker = Some i"
    by (simp add: strstr_Some_iff)
  moreover from assms(3) have "strstr response action_marker = Some a"
    by (simp add: strstr_Some_iff)
  ultimately show ?thesis using assms(4)
    by (simp add: agent_parse_response_def)
qed

text \<open>The theorem at a completion that names the payload before the tool.\<close>

theorem parse_reversed_order_unknown_witness:
  "\<not> sublist final_answer_marker ''Action Input: {}\<newline>Action: read_file\<newline>'' \<and>
   first_occurrence input_marker ''Action Input: {}\<newline>Action: read_file\<newline>'' 0 \<and>
   first_occurrence action_marker ''Action Input: {}\<newline>Action: read_file\<newline>'' 17 \<and>
   (0::nat) < 17 \<and>
   agent_parse_response ''Action Input: {}\<newline>Action: read_file\<newline>'' =
     \<lparr>type = RESPONSE_UNKNOWN, action = None, action_input = None, final_answer = None\<rparr>"
proof -
  let ?r = "''Action Input: {}\<newline>Action: read_file\<newline>''"
  have "strstr ?r final_answer_marker = None" by (simp add: final_answer_marker_def)
  then have h1: "\<not> sublist final_answer_marker ?r" using strstr_None_iff by blast
  have "strstr ?r input_marker = Some 0" by (simp add: input_marker_def)
  then have h2: "first_occurrence input_marker ?r 0" using strstr_Some_iff by blast
  have "strstr ?r action_marker = Some 17" by (simp add: action_marker_def)
  then have h3: "first_occurrence action_marker ?r 17" using strstr_Some_iff by blast
  have h4: "(0::nat) < 17" by simp
  show ?thesis using parse_reversed_order_unknown [OF h1 h2 h3 h4] h1 h2 h3 by simp
qed

subsection \<open>C6: the size ceiling and binary files\<close>

text \<open>
  Claim C6. For a file that opens: with exactly 10 MiB and no NUL byte, \<^verbatim>\<open>read_file\<close>
  returns the printed object with the fields \<^verbatim>\<open>file\<close> and \<^verbatim>\<open>content\<close>; with 10 MiB and one
  byte, it returns the printed error \<^verbatim>\<open>File too large\<close>; with at most 10 MiB and a NUL
  byte anywhere, it returns the printed error \<^verbatim>\<open>Cannot read binary file\<close>. The result is a
  string in every case: \<^verbatim>\<open>read_file\<close> has no fault.
\<close>

theorem read_file_size_and_binary:
  assumes "fs_fopen fs file_path = Some bytes"
  shows "(length bytes = 10 * 1024 * 1024 \<and> CHR 0x00 \<notin> set bytes \<longrightarrow>
            read_file X fs file_path =
              cJSON_PrintUnformatted X
                (cJSON_Object [(''file'', cJSON_String file_path),
                               (''content'', cJSON_String bytes)])) \<and>
         (length bytes = 10 * 1024 * 1024 + 1 \<longrightarrow>
            read_file X fs file_path =
              cJSON_PrintUnformatted X
                (cJSON_Object [(''error'', cJSON_String ''File too large'')])) \<and>
         (length bytes \<le> 10 * 1024 * 1024 \<and> CHR 0x00 \<in> set bytes \<longrightarrow>
            read_file X fs file_path =
              cJSON_PrintUnformatted X
                (cJSON_Object [(''error'', cJSON_String ''Cannot read binary file'')]))"
proof (intro conjI impI)
  assume a: "length bytes = 10 * 1024 * 1024 \<and> CHR 0x00 \<notin> set bytes"
  then have "\<not> int (length bytes) > 10 * 1024 * 1024" by simp
  with a show "read_file X fs file_path =
      cJSON_PrintUnformatted X
        (cJSON_Object [(''file'', cJSON_String file_path), (''content'', cJSON_String bytes)])"
    using assms by (auto simp: read_file_def Let_def)
next
  assume "length bytes = 10 * 1024 * 1024 + 1"
  then have "int (length bytes) > 10 * 1024 * 1024" by simp
  then show "read_file X fs file_path =
      cJSON_PrintUnformatted X (cJSON_Object [(''error'', cJSON_String ''File too large'')])"
    using assms by (auto simp: read_file_def Let_def)
next
  assume a: "length bytes \<le> 10 * 1024 * 1024 \<and> CHR 0x00 \<in> set bytes"
  then have "\<not> int (length bytes) > 10 * 1024 * 1024" by simp
  with a show "read_file X fs file_path =
      cJSON_PrintUnformatted X
        (cJSON_Object [(''error'', cJSON_String ''Cannot read binary file'')])"
    using assms by (auto simp: read_file_def Let_def)
qed

text \<open>
  The theorem at a file of 10 MiB of the letter \<^verbatim>\<open>a\<close>, at one with a byte more, and at a
  file of three bytes with a NUL in the middle.
\<close>

theorem read_file_size_and_binary_witness:
  "fs_fopen (demo_fs\<lparr>fs_fopen := \<lambda>p. Some (replicate (10 * 1024 * 1024) CHR ''a'')\<rparr>) ''big.txt'' =
     Some (replicate (10 * 1024 * 1024) CHR ''a'') \<and>
   length (replicate (10 * 1024 * 1024) CHR ''a'') = 10 * 1024 * 1024 \<and>
   CHR 0x00 \<notin> set (replicate (10 * 1024 * 1024) CHR ''a'') \<and>
   read_file demo_extern (demo_fs\<lparr>fs_fopen := \<lambda>p. Some (replicate (10 * 1024 * 1024) CHR ''a'')\<rparr>)
       ''big.txt'' =
     cJSON_PrintUnformatted demo_extern
       (cJSON_Object [(''file'', cJSON_String ''big.txt''),
                      (''content'', cJSON_String (replicate (10 * 1024 * 1024) CHR ''a''))]) \<and>
   fs_fopen (demo_fs\<lparr>fs_fopen := \<lambda>p. Some (replicate (10 * 1024 * 1024 + 1) CHR ''a'')\<rparr>) ''big.txt'' =
     Some (replicate (10 * 1024 * 1024 + 1) CHR ''a'') \<and>
   length (replicate (10 * 1024 * 1024 + 1) CHR ''a'') = 10 * 1024 * 1024 + 1 \<and>
   read_file demo_extern
       (demo_fs\<lparr>fs_fopen := \<lambda>p. Some (replicate (10 * 1024 * 1024 + 1) CHR ''a'')\<rparr>) ''big.txt'' =
     cJSON_PrintUnformatted demo_extern (cJSON_Object [(''error'', cJSON_String ''File too large'')]) \<and>
   fs_fopen (demo_fs\<lparr>fs_fopen := \<lambda>p. Some [CHR ''a'', CHR 0x00, CHR ''b'']\<rparr>) ''a.bin'' =
     Some [CHR ''a'', CHR 0x00, CHR ''b''] \<and>
   length [CHR ''a'', CHR 0x00, CHR ''b''] \<le> 10 * 1024 * 1024 \<and>
   CHR 0x00 \<in> set [CHR ''a'', CHR 0x00, CHR ''b''] \<and>
   read_file demo_extern (demo_fs\<lparr>fs_fopen := \<lambda>p. Some [CHR ''a'', CHR 0x00, CHR ''b'']\<rparr>) ''a.bin'' =
     cJSON_PrintUnformatted demo_extern
       (cJSON_Object [(''error'', cJSON_String ''Cannot read binary file'')])"
proof -
  let ?ok = "replicate (10 * 1024 * 1024) CHR ''a''"
  let ?big = "replicate (10 * 1024 * 1024 + 1) CHR ''a''"
  let ?bin = "[CHR ''a'', CHR 0x00, CHR ''b'']"
  have o1: "fs_fopen (demo_fs\<lparr>fs_fopen := \<lambda>p. Some ?ok\<rparr>) ''big.txt'' = Some ?ok" by simp
  have o2: "length ?ok = 10 * 1024 * 1024" by simp
  have o3: "CHR 0x00 \<notin> set ?ok" by simp
  have b1: "fs_fopen (demo_fs\<lparr>fs_fopen := \<lambda>p. Some ?big\<rparr>) ''big.txt'' = Some ?big" by simp
  have b2: "length ?big = 10 * 1024 * 1024 + 1" by simp
  have n1: "fs_fopen (demo_fs\<lparr>fs_fopen := \<lambda>p. Some ?bin\<rparr>) ''a.bin'' = Some ?bin" by simp
  have n2: "length ?bin \<le> 10 * 1024 * 1024" by simp
  have n3: "CHR 0x00 \<in> set ?bin" by simp
  from read_file_size_and_binary [OF o1, of demo_extern] o2 o3
  have r1: "read_file demo_extern (demo_fs\<lparr>fs_fopen := \<lambda>p. Some ?ok\<rparr>) ''big.txt'' =
     cJSON_PrintUnformatted demo_extern
       (cJSON_Object [(''file'', cJSON_String ''big.txt''), (''content'', cJSON_String ?ok)])"
    by blast
  from read_file_size_and_binary [OF b1, of demo_extern] b2
  have r2: "read_file demo_extern (demo_fs\<lparr>fs_fopen := \<lambda>p. Some ?big\<rparr>) ''big.txt'' =
     cJSON_PrintUnformatted demo_extern (cJSON_Object [(''error'', cJSON_String ''File too large'')])"
    by blast
  from read_file_size_and_binary [OF n1, of demo_extern] n2 n3
  have r3: "read_file demo_extern (demo_fs\<lparr>fs_fopen := \<lambda>p. Some ?bin\<rparr>) ''a.bin'' =
     cJSON_PrintUnformatted demo_extern
       (cJSON_Object [(''error'', cJSON_String ''Cannot read binary file'')])"
    by blast
  from o1 o2 o3 r1 b1 b2 r2 n1 n2 n3 r3 show ?thesis by blast
qed

subsection \<open>C7: a payload that is not JSON\<close>

text \<open>
  Claim C7. For every tool name (a missing one included) and every argument payload that
  the JSON library does not parse, \<^verbatim>\<open>agent_execute_tool\<close> returns, without a fault, exactly
  the string \<^verbatim>\<open>{"error": "Failed to parse input JSON"}\<close>. The loop goes on with it: an
  iteration whose completion parses as a tool call with such a payload appends the
  completion and this error as an observation, and continues with the next step.
\<close>

theorem execute_tool_parse_failure:
  assumes "cJSON_Parse X (Some input_text) = None"
  shows \<open>agent_execute_tool X fs fuel tool_name (Some input_text) =
           Inr ''{"error": "Failed to parse input JSON"}'' \<and>
         (step < MAX_STEPS \<and> llm (client agent) (memory agent) = (Some r, c') \<and>
          type (agent_parse_response r) = RESPONSE_ACTION \<and>
          action_input (agent_parse_response r) = Some input_text \<longrightarrow>
          react_loop X fs stack_room fuel llm step agent =
            react_loop X fs stack_room fuel llm (Suc step)
              \<lparr>client = c',
               memory = memory agent @
                 [\<lparr>role = ''assistant'', content = r\<rparr>,
                  \<lparr>role = ''user'',
                   content = ''Observation: {"error": "Failed to parse input JSON"}''\<rparr>]\<rparr>)\<close>
proof (intro conjI impI)
  show tool: \<open>agent_execute_tool X fs fuel name (Some input_text) =
      Inr ''{"error": "Failed to parse input JSON"}''\<close> for name
    using assms by (simp add: agent_execute_tool_def)
  assume a: "step < MAX_STEPS \<and> llm (client agent) (memory agent) = (Some r, c') \<and>
    type (agent_parse_response r) = RESPONSE_ACTION \<and>
    action_input (agent_parse_response r) = Some input_text"
  show \<open>react_loop X fs stack_room fuel llm step agent =
      react_loop X fs stack_room fuel llm (Suc step)
        \<lparr>client = c',
         memory = memory agent @
           [\<lparr>role = ''assistant'', content = r\<rparr>,
            \<lparr>role = ''user'',
             content = ''Observation: {"error": "Failed to parse input JSON"}''\<rparr>]\<rparr>\<close>
  proof (cases agent)
    case (fields c m)
    with a tool [of "action (agent_parse_response r)"] show ?thesis
      by (subst react_loop.simps)
        (simp add: agent_call_llm_def agent_add_message_def obs_message_fits_def Let_def)
  qed
qed

text \<open>
  The theorem at a payload with an unquoted key, as the first completion of a script.
\<close>

theorem execute_tool_parse_failure_witness:
  \<open>cJSON_Parse demo_extern (Some ''{directory: }'') = None \<and>
   agent_execute_tool demo_extern demo_fs 0 (Some ''read_file'') (Some ''{directory: }'') =
     Inr ''{"error": "Failed to parse input JSON"}'' \<and>
   (0::nat) < MAX_STEPS \<and>
   scripted [''Action: read_file\<newline>Action Input: {directory: }''] [] =
     (Some ''Action: read_file\<newline>Action Input: {directory: }'', []) \<and>
   type (agent_parse_response ''Action: read_file\<newline>Action Input: {directory: }'') =
     RESPONSE_ACTION \<and>
   action_input (agent_parse_response ''Action: read_file\<newline>Action Input: {directory: }'') =
     Some ''{directory: }'' \<and>
   react_loop demo_extern demo_fs 0 0 scripted 0
       \<lparr>client = [''Action: read_file\<newline>Action Input: {directory: }''], memory = []\<rparr> =
     react_loop demo_extern demo_fs 0 0 scripted (Suc 0)
       \<lparr>client = [],
        memory = [] @
          [\<lparr>role = ''assistant'',
            content = ''Action: read_file\<newline>Action Input: {directory: }''\<rparr>,
           \<lparr>role = ''user'',
            content = ''Observation: {"error": "Failed to parse input JSON"}''\<rparr>]\<rparr>\<close>
proof -
  let ?r = "''Action: read_file\<newline>Action Input: {directory: }''"
  let ?agent = "\<lparr>client = [?r], memory = []\<rparr>"
  have h: "cJSON_Parse demo_extern (Some ''{directory: }'') = None"
    by (simp add: demo_extern_def demo_parse_def)
  have s: "(0::nat) < MAX_STEPS" by (simp add: MAX_STEPS_def)
  have l: "scripted [?r] [] = (Some ?r, [])" by (simp add: scripted_def)
  have p: "agent_parse_response ?r =
      \<lparr>type = RESPONSE_ACTION, action = Some ''read_file'',
       action_input = Some ''{directory: }'', final_answer = None\<rparr>"
    by (simp add: agent_parse_response_def final_answer_marker_def action_marker_def
        input_marker_def string_trim_def isspace_def Let_def)
  then have t: "type (agent_parse_response ?r) = RESPONSE_ACTION"
    and i: "action_input (agent_parse_response ?r) = Some ''{directory: }''"
    by simp_all
  note inst = execute_tool_parse_failure [OF h, of demo_fs 0 "Some ''read_file''" 0 scripted
      ?agent ?r "[]" 0]
  from inst have a: \<open>agent_execute_tool demo_extern demo_fs 0 (Some ''read_file'')
      (Some ''{directory: }'') = Inr ''{"error": "Failed to parse input JSON"}''\<close>
    by blast
  from l have l': "scripted (client ?agent) (memory ?agent) = (Some ?r, [])" by simp
  from inst s l' t i have b: \<open>react_loop demo_extern demo_fs 0 0 scripted 0 ?agent =
     react_loop demo_extern demo_fs 0 0 scripted (Suc 0)
       \<lparr>client = [],
        memory = memory ?agent @
          [\<lparr>role = ''assistant'', content = ?r\<rparr>,
           \<lparr>role = ''user'',
            content = ''Observation: {"error": "Failed to parse input JSON"}''\<rparr>]\<rparr>\<close>
    by blast
  then have b': \<open>react_loop demo_extern demo_fs 0 0 scripted 0 ?agent =
     react_loop demo_extern demo_fs 0 0 scripted (Suc 0)
       \<lparr>client = [],
        memory = [] @
          [\<lparr>role = ''assistant'', content = ?r\<rparr>,
           \<lparr>role = ''user'',
            content = ''Observation: {"error": "Failed to parse input JSON"}''\<rparr>]\<rparr>\<close>
    by simp
  from h a s l t i b' show ?thesis by blast
qed

subsection \<open>C8: the ignore test\<close>

text \<open>
  Claim C8. \<^verbatim>\<open>gitignore_should_ignore\<close> is true if and only if some loaded pattern occurs in
  the path, or ends the path, or equals a segment of the path delimited by a slash or a
  backslash; without a rule set it is false. With the single pattern \<^verbatim>\<open>node_modules\<close>,
  the path \<^verbatim>\<open>src/node_modules/a.js\<close> is ignored and the path \<^verbatim>\<open>src/other/a.js\<close> is not.
\<close>

theorem gitignore_should_ignore_iff:
  "(gitignore_should_ignore ignore path \<longleftrightarrow> spec_should_ignore ignore path) \<and>
   gitignore_should_ignore (Some [''node_modules'']) ''src/node_modules/a.js'' \<and>
   \<not> gitignore_should_ignore (Some [''node_modules'']) ''src/other/a.js''"
proof (intro conjI)
  show "gitignore_should_ignore ignore path \<longleftrightarrow> spec_should_ignore ignore path"
  proof (cases ignore)
    case None
    then show ?thesis by (simp add: gitignore_should_ignore_def spec_should_ignore_def)
  next
    case (Some patterns)
    have "sublist p path \<or> suffix p path \<or> p \<noteq> [] \<and> p \<in> set (spec_path_segments path) \<longleftrightarrow>
        sublist p path \<or> suffix p path \<or> p \<in> set (spec_path_segments path)"
      for p
      by (cases "p = []") auto
    with Some show ?thesis
      by (simp add: gitignore_should_ignore_def spec_should_ignore_def patterns_loop_tests)
  qed
next
  show "gitignore_should_ignore (Some [''node_modules'']) ''src/node_modules/a.js''"
    by (simp add: gitignore_should_ignore_def)
next
  have "strstr ''src/other/a.js'' ''node_modules'' = None" by simp
  moreover have "\<not> string_ends_with ''src/other/a.js'' ''node_modules''"
    by (simp add: string_ends_with_def)
  moreover have "\<not> token_loop ''node_modules'' (strtok ''src/other/a.js'' path_delims)"
    by (simp add: strtok_def path_delims_def)
  ultimately show "\<not> gitignore_should_ignore (Some [''node_modules'']) ''src/other/a.js''"
    by (simp add: gitignore_should_ignore_def)
qed

text \<open>The theorem at the two paths, read from the specification's side.\<close>

theorem gitignore_should_ignore_iff_witness:
  "spec_should_ignore (Some [''node_modules'']) ''src/node_modules/a.js'' \<and>
   \<not> spec_should_ignore (Some [''node_modules'']) ''src/other/a.js''"
  using gitignore_should_ignore_iff [of "Some [''node_modules'']" "''src/node_modules/a.js''"]
    gitignore_should_ignore_iff [of "Some [''node_modules'']" "''src/other/a.js''"]
  by blast

subsection \<open>C9: a directory that does not exist\<close>

text \<open>
  Claim C9. For every directory argument that does not name an existing directory
  (\<^verbatim>\<open>stat\<close> fails on it, or reports something that is not a directory) and every pattern,
  \<^verbatim>\<open>find_all_matching_files\<close> returns, without a fault and whatever the fuel, exactly the
  text \<^verbatim>\<open>[]\<close>.
\<close>

theorem find_all_matching_files_no_directory:
  assumes "stat fs directory \<noteq> Some S_IFDIR"
  shows "find_all_matching_files X fs fuel directory pattern = Inr ''[]''"
proof -
  from assms have "\<not> platform_is_directory fs directory"
    by (cases "stat fs directory") (simp_all add: platform_is_directory_def)
  then show ?thesis by (simp add: find_all_matching_files_def)
qed

text \<open>
  The theorem at a path the sample file system does not have, and at one that is a file.
\<close>

theorem find_all_matching_files_no_directory_witness:
  "stat demo_fs ''./missing'' \<noteq> Some S_IFDIR \<and>
   find_all_matching_files demo_extern demo_fs 0 ''./missing'' ''*.c'' = Inr ''[]'' \<and>
   stat demo_fs ''./main.c'' \<noteq> Some S_IFDIR \<and>
   find_all_matching_files demo_extern demo_fs 0 ''./main.c'' ''*'' = Inr ''[]''"
proof -
  have h: "stat demo_fs ''./missing'' \<noteq> Some S_IFDIR"
    by (simp add: stat_def demo_fs_def)
  have k: "stat demo_fs ''./main.c'' \<noteq> Some S_IFDIR"
    by (simp add: stat_def demo_fs_def)
  from find_all_matching_files_no_directory [OF h] find_all_matching_files_no_directory [OF k] h k
  show ?thesis by blast
qed

subsection \<open>C10: the defaults of the tool \<^verbatim>\<open>find_all_matching_files\<close>\<close>

text \<open>
  Claim C10. Let the argument payload parse as JSON. If it has no string field
  \<^verbatim>\<open>pattern\<close> (the library's lookup finds nothing, or something that is not a string), the
  dispatcher's result is that of \<^verbatim>\<open>find_all_matching_files\<close> called with the pattern \<^verbatim>\<open>*\<close>.
  If it has no string field \<^verbatim>\<open>directory\<close>, the dispatcher's result is that of the tool called
  with the empty string as directory, which is the text \<^verbatim>\<open>[]\<close> and not an error about a
  missing field.
\<close>

theorem execute_tool_find_defaults:
  assumes "cJSON_Parse X input_text = Some input"
  shows "((\<forall>s. cJSON_GetObjectItem X input ''pattern'' \<noteq> Some (cJSON_String s)) \<longrightarrow>
            agent_execute_tool X fs fuel (Some ''find_all_matching_files'') input_text =
              find_all_matching_files X fs fuel
                (case cJSON_GetObjectItem X input ''directory'' of
                   Some (cJSON_String s) \<Rightarrow> s | _ \<Rightarrow> [])
                ''*'') \<and>
         ((\<forall>s. cJSON_GetObjectItem X input ''directory'' \<noteq> Some (cJSON_String s)) \<longrightarrow>
            agent_execute_tool X fs fuel (Some ''find_all_matching_files'') input_text =
              find_all_matching_files X fs fuel []
                (case cJSON_GetObjectItem X input ''pattern'' of
                   Some (cJSON_String s) \<Rightarrow> s | _ \<Rightarrow> ''*'') \<and>
            agent_execute_tool X fs fuel (Some ''find_all_matching_files'') input_text =
              Inr ''[]'')"
proof (intro conjI impI)
  assume np: "\<forall>s. cJSON_GetObjectItem X input ''pattern'' \<noteq> Some (cJSON_String s)"
  then have "(case cJSON_GetObjectItem X input ''pattern'' of
                Some (cJSON_String s) \<Rightarrow> s | _ \<Rightarrow> ''*'') = ''*''"
    by (auto split: option.splits cJSON.splits)
  with assms show "agent_execute_tool X fs fuel (Some ''find_all_matching_files'') input_text =
      find_all_matching_files X fs fuel
        (case cJSON_GetObjectItem X input ''directory'' of
           Some (cJSON_String s) \<Rightarrow> s | _ \<Rightarrow> [])
        ''*''"
    by (simp add: agent_execute_tool_def)
next
  assume nd: "\<forall>s. cJSON_GetObjectItem X input ''directory'' \<noteq> Some (cJSON_String s)"
  then have d: "(case cJSON_GetObjectItem X input ''directory'' of
                Some (cJSON_String s) \<Rightarrow> s | _ \<Rightarrow> []) = []"
    by (auto split: option.splits cJSON.splits)
  with assms show call: "agent_execute_tool X fs fuel (Some ''find_all_matching_files'') input_text =
      find_all_matching_files X fs fuel []
        (case cJSON_GetObjectItem X input ''pattern'' of
           Some (cJSON_String s) \<Rightarrow> s | _ \<Rightarrow> ''*'')"
    by (simp add: agent_execute_tool_def)
  have "\<not> platform_is_directory fs []"
    by (simp add: platform_is_directory_def stat_def)
  then show "agent_execute_tool X fs fuel (Some ''find_all_matching_files'') input_text = Inr ''[]''"
    unfolding call by (simp add: find_all_matching_files_def)
qed

text \<open>The theorem at the payload \<^verbatim>\<open>{}\<close>, which has neither field.\<close>

theorem execute_tool_find_defaults_witness:
  "cJSON_Parse demo_extern (Some ''{}'') = Some (cJSON_Object []) \<and>
   (\<forall>s. cJSON_GetObjectItem demo_extern (cJSON_Object []) ''pattern'' \<noteq> Some (cJSON_String s)) \<and>
   (\<forall>s. cJSON_GetObjectItem demo_extern (cJSON_Object []) ''directory'' \<noteq> Some (cJSON_String s)) \<and>
   agent_execute_tool demo_extern demo_fs 0 (Some ''find_all_matching_files'') (Some ''{}'') =
     find_all_matching_files demo_extern demo_fs 0 [] ''*'' \<and>
   agent_execute_tool demo_extern demo_fs 0 (Some ''find_all_matching_files'') (Some ''{}'') =
     Inr ''[]''"
proof -
  have h: "cJSON_Parse demo_extern (Some ''{}'') = Some (cJSON_Object [])"
    by (simp add: demo_extern_def demo_parse_def)
  have p: "\<forall>s. cJSON_GetObjectItem demo_extern (cJSON_Object []) ''pattern'' \<noteq> Some (cJSON_String s)"
    by (simp add: demo_extern_def demo_get_def)
  have d: "\<forall>s. cJSON_GetObjectItem demo_extern (cJSON_Object []) ''directory'' \<noteq> Some (cJSON_String s)"
    by (simp add: demo_extern_def demo_get_def)
  have g: "cJSON_GetObjectItem demo_extern (cJSON_Object []) ''directory'' = None"
    by (simp add: demo_extern_def demo_get_def)
  note t = execute_tool_find_defaults [OF h, of demo_fs 0]
  from t p have "agent_execute_tool demo_extern demo_fs 0 (Some ''find_all_matching_files'') (Some ''{}'') =
      find_all_matching_files demo_extern demo_fs 0
        (case cJSON_GetObjectItem demo_extern (cJSON_Object []) ''directory'' of
           Some (cJSON_String s) \<Rightarrow> s | _ \<Rightarrow> [])
        ''*''"
    by blast
  then have a: "agent_execute_tool demo_extern demo_fs 0 (Some ''find_all_matching_files'') (Some ''{}'') =
      find_all_matching_files demo_extern demo_fs 0 [] ''*''"
    by (simp add: g)
  from t d have b: "agent_execute_tool demo_extern demo_fs 0 (Some ''find_all_matching_files'') (Some ''{}'') =
      Inr ''[]''"
    by blast
  from h p d a b show ?thesis by blast
qed

end
